theory Spec2Isabelle
  imports Main "HOL-Library.Multiset"
begin

section \<open>Strings\<close>

text \<open>
  A Python \<open>str\<close> is held as the bytes of its UTF-8 encoding. The encoding is injective and
  commutes with concatenation, so equality and \<open>+\<close> / f-string splicing of \<open>str\<close> values are
  equality and \<open>@\<close> of the byte lists. The literals of the sources that are not ASCII are
  written byte by byte.
\<close>

type_synonym str = string

section \<open>level3.py: fetching pages one after the other and in threads\<close>

subsection \<open>The HTTP library\<close>

text \<open>
  \<open>requests.get(link, timeout=5)\<close> is a call into a library and the network. It either
  returns a response object, of which the source reads the attribute \<open>text\<close> only (the
  field \<open>response_text\<close>), or raises. A response with an error status (404, 500) is a
  response: the source does not call \<open>raise_for_status\<close>.

  Of an exception the source uses two things: whether its class derives from
  \<open>requests.RequestException\<close>, which is what the handler
  \<open>except requests.RequestException as e\<close> asks, and \<open>str(e)\<close> (the \<open>{e}\<close> of the
  f-string). \<open>RequestException\<close>, \<open>Timeout\<close>, \<open>ConnectionError\<close> and \<open>HTTPError\<close> are classes
  of \<open>requests\<close>, the last three derived from the first; \<open>RequestException\<close> stands for the
  other classes derived from it as well. \<open>LocationParseError\<close> is a class of \<open>urllib3\<close> that
  does not derive from \<open>RequestException\<close>; \<open>requests.get\<close> raises it for a URL such as
  \<open>http://a..b\<close>, whose host has an empty label. \<open>OtherClass\<close> stands for every other class
  outside the classes of \<open>requests\<close>.

  The network is a parameter: a function from the URL and the timeout in seconds to the outcome
  of the call. The same URL gives the same outcome each time it is asked for.
\<close>

datatype exception_class =
  RequestException | Timeout | ConnectionError | HTTPError | LocationParseError | OtherClass

fun issubclass_RequestException :: "exception_class \<Rightarrow> bool" where
  "issubclass_RequestException RequestException = True"
| "issubclass_RequestException Timeout = True"
| "issubclass_RequestException ConnectionError = True"
| "issubclass_RequestException HTTPError = True"
| "issubclass_RequestException LocationParseError = False"
| "issubclass_RequestException OtherClass = False"

datatype exception = Exception (class_of: exception_class) (str_of: str)

record response =
  status_code :: nat
  response_text :: str

type_synonym requests = "str \<Rightarrow> nat \<Rightarrow> exception + response"

subsection \<open>get_html\<close>

text \<open>
  The literal of line 35 of level3.py up to the first placeholder: six Cyrillic letters, a
  space, three letters, a space, eight letters, a space (U+041E U+0448 U+0438 U+0431 U+043A
  U+0430, U+043F U+0440 U+0438, U+0437 U+0430 U+0433 U+0440 U+0443 U+0437 U+043A U+0435).
\<close>

definition error_prefix :: str where
  "error_prefix =
     [CHR 0xD0, CHR 0x9E, CHR 0xD1, CHR 0x88, CHR 0xD0, CHR 0xB8, CHR 0xD0, CHR 0xB1,
      CHR 0xD0, CHR 0xBA, CHR 0xD0, CHR 0xB0] @ '' '' @
     [CHR 0xD0, CHR 0xBF, CHR 0xD1, CHR 0x80, CHR 0xD0, CHR 0xB8] @ '' '' @
     [CHR 0xD0, CHR 0xB7, CHR 0xD0, CHR 0xB0, CHR 0xD0, CHR 0xB3, CHR 0xD1, CHR 0x80,
      CHR 0xD1, CHR 0x83, CHR 0xD0, CHR 0xB7, CHR 0xD0, CHR 0xBA, CHR 0xD0, CHR 0xB5] @ '' ''"

text \<open>The f-string of the handler: prefix, \<open>{link}\<close>, colon and space, \<open>{e}\<close>.\<close>

definition error_message :: "str \<Rightarrow> exception \<Rightarrow> str" where
  "error_message link e = error_prefix @ link @ '': '' @ str_of e"

text \<open>
  A call of \<open>get_html\<close> returns a \<open>str\<close> (on the right) or is left by an exception (on the
  left). The handler catches the exceptions whose class derives from \<open>RequestException\<close>;
  any other exception that the request raises leaves \<open>get_html\<close> as it is.
\<close>

definition get_html :: "requests \<Rightarrow> str \<Rightarrow> exception + str" where
  "get_html requests_get link =
     (case requests_get link 5 of
        Inr response \<Rightarrow> Inr (response_text response)
      | Inl e \<Rightarrow>
          if issubclass_RequestException (class_of e) then Inr (error_message link e)
          else Inl e)"

subsection \<open>run_sequential\<close>

text \<open>
  The \<open>for\<close> loop of \<open>run_sequential\<close>, with the list \<open>results\<close> it appends to as the
  accumulator; \<open>run_sequential\<close> starts it on the empty list and returns what it leaves.
  The loop has no handler: an exception that leaves \<open>get_html\<close> leaves \<open>run_sequential\<close>.
\<close>

fun run_sequential_loop :: "requests \<Rightarrow> str list \<Rightarrow> str list \<Rightarrow> exception + str list" where
  "run_sequential_loop requests_get [] results = Inr results"
| "run_sequential_loop requests_get (link # links) results =
     (case get_html requests_get link of
        Inl e \<Rightarrow> Inl e
      | Inr result \<Rightarrow> run_sequential_loop requests_get links (results @ [result]))"

definition run_sequential :: "requests \<Rightarrow> str list \<Rightarrow> exception + str list" where
  "run_sequential requests_get links = run_sequential_loop requests_get links []"

text \<open>
  The list comprehension \<open>[f(x) for x in xs]\<close>, to which the specification compares
  \<open>run_sequential\<close>: \<open>f\<close> is called on the elements in their order, and the first exception
  leaves the comprehension.
\<close>

fun list_comprehension :: "('a \<Rightarrow> exception + 'b) \<Rightarrow> 'a list \<Rightarrow> exception + 'b list" where
  "list_comprehension f [] = Inr []"
| "list_comprehension f (x # xs) =
     (case f x of
        Inl e \<Rightarrow> Inl e
      | Inr y \<Rightarrow> (case list_comprehension f xs of Inl e \<Rightarrow> Inl e | Inr ys \<Rightarrow> Inr (y # ys)))"

subsection \<open>run_parallel\<close>

text \<open>
  \<open>run_parallel\<close> creates one \<open>threading.Thread\<close> for each link, with the closure \<open>worker\<close> as
  target and the link as its argument, starts it at once and keeps it in the list \<open>threads\<close>.
  Every worker runs \<open>results.append(get_html(link))\<close> on the one list \<open>results\<close> they share.
  The main thread then joins the threads in the order of the list and returns \<open>results\<close>.

  \<open>worker\<close> is the closure, as a function of the list it appends to. When an exception leaves
  \<open>get_html\<close> the call of \<open>append\<close> is not reached: the exception ends the thread (the
  interpreter prints it), and the list stays as it was.
\<close>

definition worker :: "requests \<Rightarrow> str \<Rightarrow> str list \<Rightarrow> str list" where
  "worker requests_get link results =
     (case get_html requests_get link of
        Inr page \<Rightarrow> results @ [page]
      | Inl e \<Rightarrow> results)"

text \<open>
  The state of a call is what the source holds: the links the first loop has not reached yet,
  the list \<open>threads\<close> (of a thread: its argument and whether it is still alive) and the
  list \<open>results\<close>.
\<close>

record thread =
  args :: str
  alive :: bool

record call_state =
  pending :: "str list"
  threads :: "thread list"
  results :: "str list"

text \<open>
  Which thread runs next is the interpreter's choice. An execution is a sequence of events:
  \<open>Start\<close> is one pass of the first loop (the main thread creates the thread for the next
  link, appends it to \<open>threads\<close> and starts it); \<open>Finish i\<close> is the thread at index \<open>i\<close> of
  \<open>threads\<close> running its worker and ending. \<open>list.append\<close> is atomic, and \<open>get_html\<close> shares
  nothing with the other threads, so a worker is one event. An event that cannot happen in a
  state (no link left to start; a thread that does not exist yet or has ended) gives \<open>None\<close>.
\<close>

datatype event = Start | Finish nat

fun step :: "requests \<Rightarrow> event \<Rightarrow> call_state \<Rightarrow> call_state option" where
  "step requests_get Start s =
     (case pending s of
        [] \<Rightarrow> None
      | link # rest \<Rightarrow>
          Some (s\<lparr>pending := rest, threads := threads s @ [\<lparr>args = link, alive = True\<rparr>]\<rparr>))"
| "step requests_get (Finish i) s =
     (if i < length (threads s) \<and> alive (threads s ! i)
      then Some (s\<lparr>threads := (threads s)[i := (threads s ! i)\<lparr>alive := False\<rparr>],
                    results := worker requests_get (args (threads s ! i)) (results s)\<rparr>)
      else None)"

fun exec :: "requests \<Rightarrow> event list \<Rightarrow> call_state \<Rightarrow> call_state option" where
  "exec requests_get [] s = Some s"
| "exec requests_get (e # es) s =
     (case step requests_get e s of
        None \<Rightarrow> None
      | Some s' \<Rightarrow> exec requests_get es s')"

text \<open>
  The second loop, \<open>for t in threads: t.join()\<close>, changes nothing and is passed exactly when
  the first loop is over and no thread is alive.
\<close>

definition joined :: "call_state \<Rightarrow> bool" where
  "joined s = (pending s = [] \<and> list_all (\<lambda>t. \<not> alive t) (threads s))"

text \<open>
  \<open>run_parallel\<close> under a schedule: the list it returns when the events of the schedule are
  one whole execution of the call, from the two empty lists to the end of the joins. No
  exception leaves \<open>run_parallel\<close>: those of the workers end in their threads.
\<close>

definition run_parallel :: "requests \<Rightarrow> str list \<Rightarrow> event list \<Rightarrow> str list option" where
  "run_parallel requests_get links schedule =
     (case exec requests_get schedule \<lparr>pending = links, threads = [], results = []\<rparr> of
        None \<Rightarrow> None
      | Some s \<Rightarrow> if joined s then Some (results s) else None)"

text \<open>The order in which the threads ended: the thread indices of the schedule's \<open>Finish\<close> events.\<close>

fun completion_order :: "event list \<Rightarrow> nat list" where
  "completion_order [] = []"
| "completion_order (Start # es) = completion_order es"
| "completion_order (Finish i # es) = i # completion_order es"

text \<open>
  The schedule that starts every thread and then lets the threads end in a given order.
\<close>

definition schedule_of :: "nat \<Rightarrow> nat list \<Rightarrow> event list" where
  "schedule_of n order = replicate n Start @ map Finish order"

text \<open>The indices of the threads that have ended.\<close>

definition ended :: "call_state \<Rightarrow> nat set" where
  "ended s = set (filter (\<lambda>i. \<not> alive (threads s ! i)) [0..<length (threads s)])"

subsection \<open>Networks for the examples\<close>

text \<open>
  \<open>site\<close> answers every URL with status 200 and a page that names the URL. \<open>site_without l\<close>
  does the same, except that the connection to \<open>l\<close> is refused.
\<close>

definition site :: requests where
  "site link timeout = Inr \<lparr>status_code = 200, response_text = ''<'' @ link @ ''>''\<rparr>"

definition refused :: exception where
  "refused = Exception ConnectionError ''refused''"

definition site_without :: "str \<Rightarrow> requests" where
  "site_without l link timeout = (if link = l then Inl refused else site link timeout)"

text \<open>
  \<open>down\<close> lets every request time out. \<open>parrot\<close> answers every URL with a page whose text
  is, letter for letter, the message \<open>get_html\<close> makes of that time-out.
\<close>

definition timed_out :: exception where
  "timed_out = Exception Timeout ''timed out''"

definition down :: requests where
  "down link timeout = Inl timed_out"

definition parrot :: requests where
  "parrot link timeout = Inr \<lparr>status_code = 200, response_text = error_message link timed_out\<rparr>"

text \<open>
  \<open>site_unparsed\<close> is \<open>site\<close>, except that the URL \<open>http://a..b\<close> is not parsed: the request
  raises the \<open>LocationParseError\<close> of \<open>urllib3\<close>.
\<close>

definition unparsed :: exception where
  "unparsed = Exception LocationParseError ''label empty or too long''"

definition site_unparsed :: requests where
  "site_unparsed link timeout =
     (if link = ''http://a..b'' then Inl unparsed else site link timeout)"

section \<open>level4.py: adding a column to a spreadsheet\<close>

subsection \<open>The libraries\<close>

text \<open>
  \<open>calculate_new_column\<close> works through \<open>os.path\<close> and pandas. They are parameters: the
  file system is a value of a type \<open>'fs\<close>, a data frame a value of a type \<open>'df\<close>, the sum of a
  column a value of a type \<open>'num\<close>, and the calls of the source are the fields of a record.
  A call that can raise returns the exception on the left; of an exception the source uses
  \<open>str(e)\<close> only. \<open>to_excel\<close> writes, so it returns the file system it leaves, with the
  exception if it raised. \<open>has_column df c\<close> is \<open>c in df.columns\<close>, \<open>repr_columns df\<close> the text
  that \<open>{list(df.columns)}\<close> puts into an f-string, \<open>mul_price_quantity df\<close> the assignment
  \<open>df['Total'] = df['Price'] * df['Quantity']\<close>, \<open>sum_total df\<close> is \<open>df['Total'].sum()\<close> and
  \<open>df_len df\<close> is \<open>len(df)\<close>. What the source prints is left out.
\<close>

type_synonym exn = str

record ('fs, 'df, 'num) libraries =
  os_path_exists :: "'fs \<Rightarrow> str \<Rightarrow> bool"
  os_path_getsize :: "'fs \<Rightarrow> str \<Rightarrow> exn + nat"
  os_path_basename :: "str \<Rightarrow> str"
  pd_read_excel :: "'fs \<Rightarrow> str \<Rightarrow> exn + 'df"
  has_column :: "'df \<Rightarrow> str \<Rightarrow> bool"
  repr_columns :: "'df \<Rightarrow> str"
  mul_price_quantity :: "'df \<Rightarrow> exn + 'df"
  to_excel :: "'df \<Rightarrow> str \<Rightarrow> 'fs \<Rightarrow> 'fs \<times> exn option"
  sum_total :: "'df \<Rightarrow> exn + 'num"
  df_len :: "'df \<Rightarrow> nat"

subsection \<open>What calculate_new_column returns\<close>

text \<open>
  The function returns a \<open>str\<close> (a message) or a \<open>dict\<close> with the five keys of lines 182 to
  188.
\<close>

record 'num result =
  filename :: str
  columns_added :: "str list"
  total_sum :: 'num
  rows_processed :: nat
  status :: str

datatype 'num returned = Str str | Dict "'num result"

text \<open>
  The literals. \<open>cross_mark\<close> is U+274C and a space, with which every message starts. The
  Cyrillic words are, in order: in \<open>file_missing_message\<close> U+0424 U+0430 U+0439 U+043B, U+043D
  U+0435, U+0441 U+0443 U+0449 U+0435 U+0441 U+0442 U+0432 U+0443 U+0435 U+0442; in
  \<open>file_empty_message\<close> the first of these and U+043F U+0443 U+0441 U+0442 U+043E U+0439; in
  \<open>columns_missing_message\<close> U+0412, U+0444 U+0430 U+0439 U+043B U+0435, then U+043E U+0442
  U+0441 U+0443 U+0442 U+0441 U+0442 U+0432 U+0443 U+044E U+0442, U+043A U+043E U+043B U+043E
  U+043D U+043A U+0438, U+0438, U+0438 U+043B U+0438, U+0414 U+043E U+0441 U+0442 U+0443 U+043F
  U+043D U+044B U+0435 and U+043A U+043E U+043B U+043E U+043D U+043A U+0438; in
  \<open>processing_error_message\<close> U+041E U+0448 U+0438 U+0431 U+043A U+0430, U+043F U+0440 U+0438,
  U+043E U+0431 U+0440 U+0430 U+0431 U+043E U+0442 U+043A U+0435, U+0444 U+0430 U+0439 U+043B
  U+0430; \<open>status_ok\<close> is U+0443 U+0441 U+043F U+0435 U+0448 U+043D U+043E.
\<close>

definition cross_mark :: str where
  "cross_mark = [CHR 0xE2, CHR 0x9D, CHR 0x8C] @ '' ''"

definition file_missing_message :: "str \<Rightarrow> str" where
  "file_missing_message name =
     cross_mark @ [CHR 0xD0, CHR 0xA4, CHR 0xD0, CHR 0xB0, CHR 0xD0, CHR 0xB9, CHR 0xD0, CHR 0xBB]
     @ '' '' @ [CHR 0xD0, CHR 0xBD, CHR 0xD0, CHR 0xB5] @ '' '' @
     [CHR 0xD1, CHR 0x81, CHR 0xD1, CHR 0x83, CHR 0xD1, CHR 0x89, CHR 0xD0, CHR 0xB5,
      CHR 0xD1, CHR 0x81, CHR 0xD1, CHR 0x82, CHR 0xD0, CHR 0xB2, CHR 0xD1, CHR 0x83,
      CHR 0xD0, CHR 0xB5, CHR 0xD1, CHR 0x82] @ '': '' @ [CHR 0x27] @ name @ [CHR 0x27]"

definition file_empty_message :: "str \<Rightarrow> str" where
  "file_empty_message name =
     cross_mark @ [CHR 0xD0, CHR 0xA4, CHR 0xD0, CHR 0xB0, CHR 0xD0, CHR 0xB9, CHR 0xD0, CHR 0xBB]
     @ '' '' @
     [CHR 0xD0, CHR 0xBF, CHR 0xD1, CHR 0x83, CHR 0xD1, CHR 0x81, CHR 0xD1, CHR 0x82,
      CHR 0xD0, CHR 0xBE, CHR 0xD0, CHR 0xB9] @ '': '' @ [CHR 0x27] @ name @ [CHR 0x27]"

definition columns_missing_message :: "str \<Rightarrow> str \<Rightarrow> str" where
  "columns_missing_message base available =
     cross_mark @ [CHR 0xD0, CHR 0x92] @ '' '' @
     [CHR 0xD1, CHR 0x84, CHR 0xD0, CHR 0xB0, CHR 0xD0, CHR 0xB9, CHR 0xD0, CHR 0xBB,
      CHR 0xD0, CHR 0xB5] @ '' '' @ [CHR 0x27] @ base @ [CHR 0x27] @ '' '' @
     [CHR 0xD0, CHR 0xBE, CHR 0xD1, CHR 0x82, CHR 0xD1, CHR 0x81, CHR 0xD1, CHR 0x83,
      CHR 0xD1, CHR 0x82, CHR 0xD1, CHR 0x81, CHR 0xD1, CHR 0x82, CHR 0xD0, CHR 0xB2,
      CHR 0xD1, CHR 0x83, CHR 0xD1, CHR 0x8E, CHR 0xD1, CHR 0x82] @ '' '' @
     [CHR 0xD0, CHR 0xBA, CHR 0xD0, CHR 0xBE, CHR 0xD0, CHR 0xBB, CHR 0xD0, CHR 0xBE,
      CHR 0xD0, CHR 0xBD, CHR 0xD0, CHR 0xBA, CHR 0xD0, CHR 0xB8] @ '' Price '' @
     [CHR 0xD0, CHR 0xB8] @ ''/'' @ [CHR 0xD0, CHR 0xB8, CHR 0xD0, CHR 0xBB, CHR 0xD0, CHR 0xB8]
     @ '' Quantity. '' @
     [CHR 0xD0, CHR 0x94, CHR 0xD0, CHR 0xBE, CHR 0xD1, CHR 0x81, CHR 0xD1, CHR 0x82,
      CHR 0xD1, CHR 0x83, CHR 0xD0, CHR 0xBF, CHR 0xD0, CHR 0xBD, CHR 0xD1, CHR 0x8B,
      CHR 0xD0, CHR 0xB5] @ '' '' @
     [CHR 0xD0, CHR 0xBA, CHR 0xD0, CHR 0xBE, CHR 0xD0, CHR 0xBB, CHR 0xD0, CHR 0xBE,
      CHR 0xD0, CHR 0xBD, CHR 0xD0, CHR 0xBA, CHR 0xD0, CHR 0xB8] @ '': '' @ available"

definition processing_error_message :: "str \<Rightarrow> exn \<Rightarrow> str" where
  "processing_error_message base e =
     cross_mark @
     [CHR 0xD0, CHR 0x9E, CHR 0xD1, CHR 0x88, CHR 0xD0, CHR 0xB8, CHR 0xD0, CHR 0xB1,
      CHR 0xD0, CHR 0xBA, CHR 0xD0, CHR 0xB0] @ '' '' @
     [CHR 0xD0, CHR 0xBF, CHR 0xD1, CHR 0x80, CHR 0xD0, CHR 0xB8] @ '' '' @
     [CHR 0xD0, CHR 0xBE, CHR 0xD0, CHR 0xB1, CHR 0xD1, CHR 0x80, CHR 0xD0, CHR 0xB0,
      CHR 0xD0, CHR 0xB1, CHR 0xD0, CHR 0xBE, CHR 0xD1, CHR 0x82, CHR 0xD0, CHR 0xBA,
      CHR 0xD0, CHR 0xB5] @ '' '' @
     [CHR 0xD1, CHR 0x84, CHR 0xD0, CHR 0xB0, CHR 0xD0, CHR 0xB9, CHR 0xD0, CHR 0xBB,
      CHR 0xD0, CHR 0xB0] @ '' '' @ [CHR 0x27] @ base @ [CHR 0x27] @ '': '' @ e"

definition status_ok :: str where
  "status_ok =
     [CHR 0xD1, CHR 0x83, CHR 0xD1, CHR 0x81, CHR 0xD0, CHR 0xBF, CHR 0xD0, CHR 0xB5,
      CHR 0xD1, CHR 0x88, CHR 0xD0, CHR 0xBD, CHR 0xD0, CHR 0xBE]"

subsection \<open>calculate_new_column\<close>

text \<open>
  The body of the \<open>try\<close>, statement by statement; each \<open>Inl e\<close> is an exception raised there,
  which \<open>except Exception as e\<close> turns into the message of line 194. The function returns
  its value and the file system it leaves.
\<close>

definition calculate_new_column ::
  "('fs, 'df, 'num) libraries \<Rightarrow> str \<Rightarrow> 'fs \<Rightarrow> 'num returned \<times> 'fs" where
  "calculate_new_column lib name fs =
     (let error = (\<lambda>e. Str (processing_error_message (os_path_basename lib name) e)) in
      if \<not> os_path_exists lib fs name then (Str (file_missing_message name), fs)
      else
       (case os_path_getsize lib fs name of
          Inl e \<Rightarrow> (error e, fs)
        | Inr file_size \<Rightarrow>
            if file_size = 0 then (Str (file_empty_message name), fs)
            else
             (case pd_read_excel lib fs name of
                Inl e \<Rightarrow> (error e, fs)
              | Inr df \<Rightarrow>
                  if \<not> has_column lib df ''Price'' \<or> \<not> has_column lib df ''Quantity''
                  then (Str (columns_missing_message (os_path_basename lib name)
                              (repr_columns lib df)), fs)
                  else
                   (case mul_price_quantity lib df of
                      Inl e \<Rightarrow> (error e, fs)
                    | Inr df' \<Rightarrow>
                       (case to_excel lib df' name fs of
                          (fs', Some e) \<Rightarrow> (error e, fs')
                        | (fs', None) \<Rightarrow>
                           (case sum_total lib df' of
                              Inl e \<Rightarrow> (error e, fs')
                            | Inr column_sum \<Rightarrow>
                                (Dict \<lparr>filename = name, columns_added = [''Total''],
                                       total_sum = column_sum,
                                       rows_processed = df_len lib df',
                                       status = status_ok\<rparr>, fs')))))))"

text \<open>
  The test of \<open>main\<close> (line 273) that counts a returned value as a success:
  \<open>isinstance(result, dict) and result.get('status') == ...\<close>.
\<close>

fun counted_successful :: "'num returned \<Rightarrow> bool" where
  "counted_successful (Str message) = False"
| "counted_successful (Dict d) = (status d = status_ok)"

subsection \<open>A file system for the examples\<close>

text \<open>
  A file is its size and the labels of the columns of its sheet; a data frame is the list of
  its labels. Three files: none under the name \<open>gone.xlsx\<close>, one of zero bytes, and one with
  the columns \<open>Product\<close> and \<open>Price\<close>.
\<close>

type_synonym toy_fs = "str \<Rightarrow> (nat \<times> str list) option"

definition toy :: "(toy_fs, str list, nat) libraries" where
  "toy =
     \<lparr>os_path_exists = (\<lambda>fs name. fs name \<noteq> None),
      os_path_getsize =
        (\<lambda>fs name. case fs name of None \<Rightarrow> Inl ''No such file'' | Some (n, labels) \<Rightarrow> Inr n),
      os_path_basename = (\<lambda>name. name),
      pd_read_excel =
        (\<lambda>fs name. case fs name of None \<Rightarrow> Inl ''No such file'' | Some (n, labels) \<Rightarrow> Inr labels),
      has_column = (\<lambda>df c. c \<in> set df),
      repr_columns = (\<lambda>df. concat df),
      mul_price_quantity = (\<lambda>df. Inr (df @ [''Total''])),
      to_excel = (\<lambda>df name fs. (fs(name \<mapsto> (1, df)), None)),
      sum_total = (\<lambda>df. Inr 0),
      df_len = (\<lambda>df. 0)\<rparr>"

definition disk :: toy_fs where
  "disk = [''empty.xlsx'' \<mapsto> (0, []), ''prices.xlsx'' \<mapsto> (10, [''Product'', ''Price''])]"

section \<open>Properties of level3.py\<close>

subsection \<open>What get_html and the worker do\<close>

lemma get_html_returned:
  "get_html rg link = Inr page \<longleftrightarrow>
     (case rg link 5 of
        Inr response \<Rightarrow> page = response_text response
      | Inl e \<Rightarrow> issubclass_RequestException (class_of e) \<and> page = error_message link e)"
  by (auto simp: get_html_def split: sum.splits)

lemma worker_append: "worker rg link rs = rs @ worker rg link []"
  by (simp add: worker_def split: sum.splits)

lemma worker_returned: "get_html rg link = Inr page \<Longrightarrow> worker rg link [] = [page]"
  by (simp add: worker_def)

lemma returned_length: "map (get_html rg) links = map Inr pages \<Longrightarrow> length pages = length links"
  by (auto dest: map_eq_imp_length_eq)

lemma returned_nth:
  "map (get_html rg) links = map Inr pages \<Longrightarrow> i < length links \<Longrightarrow>
   get_html rg (links ! i) = Inr (pages ! i)"
proof -
  assume m: "map (get_html rg) links = map Inr pages" and i: "i < length links"
  from m have len: "length pages = length links" by (rule returned_length)
  from i have "get_html rg (links ! i) = map (get_html rg) links ! i" by simp
  also from m have "\<dots> = map Inr pages ! i" by simp
  also from i len have "\<dots> = Inr (pages ! i)" by simp
  finally show ?thesis .
qed

subsection \<open>run_sequential and the comprehension\<close>

lemma run_sequential_loop_comprehension:
  "run_sequential_loop rg links acc =
     (case list_comprehension (get_html rg) links of
        Inl e \<Rightarrow> Inl e
      | Inr ys \<Rightarrow> Inr (acc @ ys))"
  by (induction links arbitrary: acc) (auto split: sum.splits)

lemma list_comprehension_returned:
  "map f xs = map Inr ys \<Longrightarrow> list_comprehension f xs = Inr ys"
  by (induction xs arbitrary: ys) auto

lemma run_sequential_returned:
  "map (get_html rg) links = map Inr pages \<Longrightarrow> run_sequential rg links = Inr pages"
  by (simp add: run_sequential_def run_sequential_loop_comprehension
      list_comprehension_returned)

subsection \<open>Executions of run_parallel\<close>

text \<open>The links of a call, started or not, stay what they are.\<close>

lemma step_links:
  "step rg e s = Some s' \<Longrightarrow>
   map args (threads s') @ pending s' = map args (threads s) @ pending s"
  by (cases e) (auto split: list.splits if_splits simp: map_update list_update_same_conv)

lemma exec_links:
  "exec rg es s = Some s' \<Longrightarrow>
   map args (threads s') @ pending s' = map args (threads s) @ pending s"
proof (induction es arbitrary: s)
  case Nil
  then show ?case by simp
next
  case (Cons e es)
  then obtain s1 where s1: "step rg e s = Some s1" and rest: "exec rg es s1 = Some s'"
    by (auto split: option.splits)
  from Cons.IH [OF rest] step_links [OF s1] show ?case by simp
qed

lemma exec_append:
  "exec rg (es @ fs) s = (case exec rg es s of None \<Rightarrow> None | Some s' \<Rightarrow> exec rg fs s')"
  by (induction es arbitrary: s) (auto split: option.splits)

text \<open>
  What an execution appends to \<open>results\<close>: what the workers of the links append, in the
  order in which the threads end.
\<close>

lemma exec_results:
  "exec rg es s = Some s' \<Longrightarrow>
   results s' =
     results s @
     concat (map (\<lambda>i. worker rg ((map args (threads s) @ pending s) ! i) [])
               (completion_order es))"
proof (induction es arbitrary: s)
  case Nil
  then show ?case by simp
next
  case (Cons e es)
  then obtain s1 where s1: "step rg e s = Some s1" and rest: "exec rg es s1 = Some s'"
    by (auto split: option.splits)
  note ih = Cons.IH [OF rest, unfolded step_links [OF s1]]
  show ?case
  proof (cases e)
    case Start
    with s1 have "results s1 = results s" by (auto split: list.splits)
    with ih Start show ?thesis by simp
  next
    case (Finish i)
    with s1 have "i < length (threads s)"
      and "results s1 = worker rg (args (threads s ! i)) (results s)"
      by (auto split: if_splits)
    with ih Finish worker_append [of rg "args (threads s ! i)" "results s"]
    show ?thesis by (simp add: nth_append)
  qed
qed

text \<open>A thread ends once: the order of completion has no index twice.\<close>

lemma step_Start_ended: "step rg Start s = Some s' \<Longrightarrow> ended s' = ended s"
  by (auto simp: ended_def nth_append less_Suc_eq split: list.splits if_splits)

lemma step_Finish_ended:
  "step rg (Finish i) s = Some s' \<Longrightarrow> i \<notin> ended s \<and> ended s' = insert i (ended s)"
  by (auto simp: ended_def nth_list_update split: if_splits)

lemma exec_ended:
  "exec rg es s = Some s' \<Longrightarrow>
   distinct (completion_order es) \<and> set (completion_order es) \<inter> ended s = {} \<and>
   ended s' = ended s \<union> set (completion_order es)"
proof (induction es arbitrary: s)
  case Nil
  then show ?case by simp
next
  case (Cons e es)
  then obtain s1 where s1: "step rg e s = Some s1" and rest: "exec rg es s1 = Some s'"
    by (auto split: option.splits)
  note ih = Cons.IH [OF rest]
  show ?case
  proof (cases e)
    case Start
    with s1 ih step_Start_ended [of rg s s1] show ?thesis by simp
  next
    case (Finish i)
    with s1 ih step_Finish_ended [of rg i s s1] show ?thesis by auto
  qed
qed

lemma joined_ended: "joined s \<Longrightarrow> ended s = {..<length (threads s)}"
  by (auto simp: joined_def ended_def list_all_length)

text \<open>
  The list a whole execution returns holds what the workers appended, in the order of
  completion, and that order holds every position of the input once.
\<close>

lemma run_parallel_order:
  assumes "run_parallel rg links schedule = Some rs"
  shows "rs = concat (map (\<lambda>i. worker rg (links ! i) []) (completion_order schedule))"
    and "mset (completion_order schedule) = mset [0..<length links]"
proof -
  let ?init = "\<lparr>pending = links, threads = [], results = []\<rparr>"
  from assms obtain s where ex: "exec rg schedule ?init = Some s"
    and j: "joined s" and rs: "rs = results s"
    by (auto simp: run_parallel_def split: option.splits if_splits)
  from exec_results [OF ex] rs
  show "rs = concat (map (\<lambda>i. worker rg (links ! i) []) (completion_order schedule))"
    by simp
  from exec_links [OF ex] j have len: "length (threads s) = length links"
    by (auto simp: joined_def dest: arg_cong [where f = length])
  have "ended ?init = {}" by (simp add: ended_def)
  with exec_ended [OF ex] joined_ended [OF j] len
  have "distinct (completion_order schedule)"
    and "set (completion_order schedule) = {..<length links}"
    by auto
  then show "mset (completion_order schedule) = mset [0..<length links]"
    by (metis atLeast_upt distinct_upt set_eq_iff_mset_eq_distinct)
qed

lemma order_length: "mset order = mset [0..<n] \<Longrightarrow> length order = n"
  using mset_eq_length [of order "[0..<n]"] by simp

lemma order_set: "mset order = mset [0..<n] \<Longrightarrow> set order = {..<n}"
  by (metis atLeast_upt mset_eq_setD)

lemma order_nth: "mset order = mset [0..<n] \<Longrightarrow> k < n \<Longrightarrow> order ! k < n"
proof -
  assume a: "mset order = mset [0..<n]" and k: "k < n"
  from a k have "order ! k \<in> set order" by (simp add: order_length)
  with order_set [OF a] show ?thesis by simp
qed

lemma order_position:
  assumes "mset order = mset [0..<n]" and "i < n"
  shows "\<exists>!k. k < n \<and> order ! k = i"
proof -
  from assms(1) have d: "distinct order"
    by (metis distinct_upt mset_eq_imp_distinct_iff)
  from assms(1) have len: "length order = n" by (rule order_length)
  from order_set [OF assms(1)] assms(2) have "i \<in> set order" by simp
  then obtain k where "k < length order" "order ! k = i"
    by (auto simp: in_set_conv_nth)
  with d len show ?thesis
    by (auto simp: nth_eq_iff_index_eq)
qed

text \<open>
  Where \<open>get_html\<close> returns for every link, each worker appends its page: the list returned
  holds the pages in the order of completion.
\<close>

lemma run_parallel_returned:
  assumes m: "map (get_html rg) links = map Inr pages"
    and r: "run_parallel rg links schedule = Some rs"
  shows "rs = map (\<lambda>i. pages ! i) (completion_order schedule)"
proof -
  note o = run_parallel_order [OF r]
  have "map (\<lambda>i. worker rg (links ! i) []) (completion_order schedule) =
        map (\<lambda>i. [pages ! i]) (completion_order schedule)"
  proof (rule map_cong [OF refl])
    fix i
    assume "i \<in> set (completion_order schedule)"
    with order_set [OF o(2)] have "i < length links" by simp
    from worker_returned [OF returned_nth [OF m this]]
    show "worker rg (links ! i) [] = [pages ! i]" .
  qed
  with o(1) have "rs = concat (map (\<lambda>i. [pages ! i]) (completion_order schedule))"
    by simp
  also have "\<dots> = map (\<lambda>i. pages ! i) (completion_order schedule)"
    by (induction "completion_order schedule") simp_all
  finally show ?thesis .
qed

text \<open>Every order of completion happens: start all the threads, then let them end in that order.\<close>

lemma exec_starts:
  "exec rg (replicate (length ls) Start) \<lparr>pending = ls, threads = ts, results = rs\<rparr> =
   Some \<lparr>pending = [], threads = ts @ map (\<lambda>l. \<lparr>args = l, alive = True\<rparr>) ls, results = rs\<rparr>"
  by (induction ls arbitrary: ts) simp_all

lemma exec_finishes:
  "distinct order \<Longrightarrow>
   list_all (\<lambda>i. i < length (threads s) \<and> alive (threads s ! i)) order \<Longrightarrow>
   \<exists>s'. exec rg (map Finish order) s = Some s' \<and> pending s' = pending s \<and>
        length (threads s') = length (threads s) \<and>
        (\<forall>j<length (threads s).
           alive (threads s' ! j) = (alive (threads s ! j) \<and> j \<notin> set order))"
proof (induction order arbitrary: s)
  case Nil
  then show ?case by simp
next
  case (Cons i order)
  let ?s1 = "s\<lparr>threads := (threads s)[i := (threads s ! i)\<lparr>alive := False\<rparr>],
                results := worker rg (args (threads s ! i)) (results s)\<rparr>"
  from Cons.prems have i: "i < length (threads s)" by simp
  from Cons.prems have s1: "step rg (Finish i) s = Some ?s1" by simp
  from Cons.prems have "distinct order"
    and "list_all (\<lambda>k. k < length (threads ?s1) \<and> alive (threads ?s1 ! k)) order"
    by (auto simp: list_all_iff nth_list_update)
  from Cons.IH [OF this] obtain s' where s': "exec rg (map Finish order) ?s1 = Some s'"
    "pending s' = pending ?s1" "length (threads s') = length (threads ?s1)"
    "\<forall>j<length (threads ?s1).
       alive (threads s' ! j) = (alive (threads ?s1 ! j) \<and> j \<notin> set order)"
    by blast
  from s1 s'(1) have a: "exec rg (map Finish (i # order)) s = Some s'" by simp
  from s'(2) have b: "pending s' = pending s" by simp
  from s'(3) have c: "length (threads s') = length (threads s)" by simp
  from s'(4) i have
    "\<forall>j<length (threads s).
       alive (threads s' ! j) = (alive (threads s ! j) \<and> j \<notin> set (i # order))"
    by (auto simp: nth_list_update)
  with a b c show ?case by blast
qed

lemma completion_order_schedule_of: "completion_order (schedule_of n order) = order"
proof -
  have a: "completion_order (replicate n Start @ es) = completion_order es" for es
    by (induction n) simp_all
  have b: "completion_order (map Finish order) = order"
    by (induction order) simp_all
  show ?thesis by (simp add: schedule_of_def a b)
qed

lemma run_parallel_schedule_of:
  assumes "mset order = mset [0..<length links]"
  shows "run_parallel rg links (schedule_of (length links) order) =
         Some (concat (map (\<lambda>i. worker rg (links ! i) []) order))"
proof -
  let ?init = "\<lparr>pending = links, threads = [], results = []\<rparr>"
  let ?s0 = "\<lparr>pending = [], threads = map (\<lambda>l. \<lparr>args = l, alive = True\<rparr>) links,
             results = []\<rparr>"
  from assms have d: "distinct order" and st: "set order = {..<length links}"
    by (metis distinct_upt mset_eq_imp_distinct_iff, metis atLeast_upt mset_eq_setD)
  have starts: "exec rg (replicate (length links) Start) ?init = Some ?s0"
    using exec_starts [of rg links "[]" "[]"] by simp
  from st have "list_all (\<lambda>i. i < length (threads ?s0) \<and> alive (threads ?s0 ! i)) order"
    by (auto simp: list_all_iff)
  from exec_finishes [OF d this, of rg]
  obtain s' where s': "exec rg (map Finish order) ?s0 = Some s'"
    "pending s' = pending ?s0" "length (threads s') = length (threads ?s0)"
    "\<forall>j<length (threads ?s0).
       alive (threads s' ! j) = (alive (threads ?s0 ! j) \<and> j \<notin> set order)"
    by blast
  from starts s'(1) have ex: "exec rg (schedule_of (length links) order) ?init = Some s'"
    by (simp add: schedule_of_def exec_append)
  from s'(2-4) st have j: "joined s'"
    by (auto simp: joined_def list_all_length)
  from exec_results [OF ex]
  have "results s' = concat (map (\<lambda>i. worker rg (links ! i) []) order)"
    by (simp add: completion_order_schedule_of)
  with ex j show ?thesis by (simp add: run_parallel_def)
qed

text \<open>
  The call ends under every scheduler: an execution has at most two events for each link,
  and each execution, however far it has come, goes on to the end of the joins.
\<close>

lemma exec_count:
  "exec rg es s = Some s' \<Longrightarrow>
   length es + length (pending s') = length (pending s) + length (completion_order es)"
proof (induction es arbitrary: s)
  case Nil
  then show ?case by simp
next
  case (Cons e es)
  then obtain s1 where s1: "step rg e s = Some s1" and rest: "exec rg es s1 = Some s'"
    by (auto split: option.splits)
  from s1 Cons.IH [OF rest] show ?case
    by (cases e) (auto split: list.splits if_splits)
qed

lemma ended_bound: "ended s \<subseteq> {..<length (threads s)}"
  by (auto simp: ended_def)

lemma exec_bound:
  assumes "exec rg es \<lparr>pending = links, threads = [], results = []\<rparr> = Some s"
  shows "length es \<le> 2 * length links"
proof -
  from exec_links [OF assms] have "length (threads s) \<le> length links"
    by (auto dest: arg_cong [where f = length])
  moreover from exec_ended [OF assms] have d: "distinct (completion_order es)"
    and "set (completion_order es) \<subseteq> ended s"
    by auto
  with ended_bound [of s] have "card (set (completion_order es)) \<le> card {..<length (threads s)}"
    by (intro card_mono) auto
  with d have "length (completion_order es) \<le> length (threads s)"
    by (simp add: distinct_card)
  ultimately show ?thesis using exec_count [OF assms] by simp
qed

lemma exec_completes:
  assumes "exec rg es \<lparr>pending = links, threads = [], results = []\<rparr> = Some s"
  shows "\<exists>fs rs. run_parallel rg links (es @ fs) = Some rs"
proof -
  let ?s1 = "\<lparr>pending = [],
             threads = threads s @ map (\<lambda>l. \<lparr>args = l, alive = True\<rparr>) (pending s),
             results = results s\<rparr>"
  let ?order = "filter (\<lambda>i. alive (threads ?s1 ! i)) [0..<length (threads ?s1)]"
  have eq: "\<lparr>pending = pending s, threads = threads s, results = results s\<rparr> = s"
    by (cases s) simp
  have "exec rg (replicate (length (pending s)) Start) s = Some ?s1"
    using exec_starts [of rg "pending s" "threads s" "results s"] unfolding eq .
  moreover have "distinct ?order"
    and "list_all (\<lambda>i. i < length (threads ?s1) \<and> alive (threads ?s1 ! i)) ?order"
    by (simp_all add: list_all_iff)
  from exec_finishes [OF this, of rg]
  obtain s2 where s2: "exec rg (map Finish ?order) ?s1 = Some s2" "pending s2 = pending ?s1"
    "length (threads s2) = length (threads ?s1)"
    "\<forall>j<length (threads ?s1).
       alive (threads s2 ! j) = (alive (threads ?s1 ! j) \<and> j \<notin> set ?order)"
    by blast
  moreover from s2(2-4) have "joined s2"
    by (auto simp: joined_def list_all_length)
  ultimately have "run_parallel rg links
      (es @ replicate (length (pending s)) Start @ map Finish ?order) = Some (results s2)"
    using assms by (simp add: run_parallel_def exec_append)
  then show ?thesis by blast
qed

text \<open>
  Where \<open>get_html\<close> returns for every link, the two runners return the same pages: as many
  as there are links, in sequential mode in the order of the links, in concurrent mode in
  some other order.
\<close>

lemma runners_agree_where_get_html_returns:
  assumes m: "map (get_html rg) links = map Inr pages"
    and r: "run_parallel rg links schedule = Some rs"
  shows "run_sequential rg links = Inr pages \<and> length rs = length links \<and>
         mset rs = mset pages"
proof -
  note o = run_parallel_order [OF r]
  from m have len: "length pages = length links" by (rule returned_length)
  from run_parallel_returned [OF m r] o(2)
  have "mset rs = image_mset (\<lambda>i. pages ! i) (mset [0..<length links])"
    by (metis mset_map)
  also have "\<dots> = mset (map (\<lambda>i. pages ! i) [0..<length links])"
    by (rule mset_map [symmetric])
  also from len have "map (\<lambda>i. pages ! i) [0..<length links] = pages"
    by (metis map_nth)
  finally have "mset rs = mset pages" .
  moreover from run_parallel_returned [OF m r] o(2) have "length rs = length links"
    by (simp add: order_length)
  ultimately show ?thesis using run_sequential_returned [OF m] by simp
qed

subsection \<open>The claims about the two runners\<close>



text \<open>
  Claim C7. On the empty list of inputs the runner returns the empty list of results and
  raises nothing, in both modes: \<open>run_sequential\<close> makes no pass of its loop, and the only
  execution of \<open>run_parallel\<close> is the one without any event, which returns the empty list.
\<close>

theorem empty_input:
  "run_sequential rg [] = Inr [] \<and>
   run_parallel rg [] schedule = (if schedule = [] then Some [] else None)"
proof
  show "run_sequential rg [] = Inr []"
    by (simp add: run_sequential_def)
next
  show "run_parallel rg [] schedule = (if schedule = [] then Some [] else None)"
  proof (cases schedule)
    case Nil
    then show ?thesis by (simp add: run_parallel_def joined_def)
  next
    case (Cons e es)
    then show ?thesis by (cases e) (simp_all add: run_parallel_def)
  qed
qed

text \<open>
  Claim C1, as the code has it. Let \<open>get_html\<close> return for every input, \<open>pages\<close> being what
  it returns for the inputs in their order. In concurrent mode the entry at position \<open>k\<close>
  of the result is then the page of the input whose worker was the \<open>k\<close>-th to end: the
  results are kept in the order of completion, which holds every input position once, and
  not by the position of the input. Wherever worker \<open>i\<close> was the \<open>i\<close>-th to end, the entry
  at position \<open>i\<close> is the page of input \<open>i\<close>.
\<close>

theorem run_parallel_completion_order:
  assumes "map (get_html rg) links = map Inr pages"
    and "run_parallel rg links schedule = Some rs"
  shows "mset (completion_order schedule) = mset [0..<length links] \<and>
         length rs = length links \<and>
         (\<forall>k<length links. rs ! k = pages ! (completion_order schedule ! k)) \<and>
         (\<forall>i<length links. completion_order schedule ! i = i \<longrightarrow> rs ! i = pages ! i)"
proof -
  note o = run_parallel_order [OF assms(2)]
  note r = run_parallel_returned [OF assms]
  from o(2) have len: "length (completion_order schedule) = length links"
    by (rule order_length)
  from r len have nth: "\<forall>k<length links. rs ! k = pages ! (completion_order schedule ! k)"
    by simp
  then have "\<forall>i<length links. completion_order schedule ! i = i \<longrightarrow> rs ! i = pages ! i"
    by auto
  with o(2) r len nth show ?thesis by simp
qed

theorem run_parallel_completion_order_witness:
  "map (get_html site) [''a'', ''b'', ''c''] = map Inr [''<a>'', ''<b>'', ''<c>''] \<and>
   run_parallel site [''a'', ''b'', ''c''] [Start, Start, Finish 1, Start, Finish 0, Finish 2]
     = Some [''<b>'', ''<a>'', ''<c>''] \<and>
   completion_order [Start, Start, Finish 1, Start, Finish 0, Finish 2] = [1, 0, 2] \<and>
   [''<b>'', ''<a>'', ''<c>''] ! 0 = [''<a>'', ''<b>'', ''<c>''] ! ([1, 0, 2] ! 0) \<and>
   [''<b>'', ''<a>'', ''<c>''] ! 2 = [''<a>'', ''<b>'', ''<c>''] ! 2"
proof -
  let ?links = "[''a'', ''b'', ''c'']"
  let ?pages = "[''<a>'', ''<b>'', ''<c>'']"
  let ?schedule = "[Start, Start, Finish 1, Start, Finish 0, Finish 2]"
  let ?rs = "[''<b>'', ''<a>'', ''<c>'']"
  have m: "map (get_html site) ?links = map Inr ?pages"
    by (simp add: get_html_def site_def)
  have r: "run_parallel site ?links ?schedule = Some ?rs"
    by (simp add: run_parallel_def joined_def worker_def get_html_def site_def)
  have c: "completion_order ?schedule = [1, 0, 2]"
    by simp
  note t = run_parallel_completion_order [OF m r]
  from t have "0 < length ?links \<longrightarrow> ?rs ! 0 = ?pages ! (completion_order ?schedule ! 0)"
    by blast
  then have "?rs ! 0 = ?pages ! (completion_order ?schedule ! 0)"
    by simp
  then have a: "?rs ! 0 = ?pages ! ([1, 0, 2] ! 0)"
    by (simp only: c)
  from t have "2 < length ?links \<longrightarrow>
      completion_order ?schedule ! 2 = 2 \<longrightarrow> ?rs ! 2 = ?pages ! 2"
    by blast
  then have b: "?rs ! 2 = ?pages ! 2"
    by (simp add: c)
  from m r c a b show ?thesis by blast
qed

text \<open>
  Claim C1 as the specification states it fails: with two inputs and the worker of the
  second input ending first, the entry at index 0 of the result is the page of the input
  at index 1, and not what \<open>get_html\<close> returns for the input at index 0.
\<close>

theorem run_parallel_index_counterexample:
  "run_parallel site [''a'', ''b''] [Start, Start, Finish 1, Finish 0] = Some [''<b>'', ''<a>''] \<and>
   get_html site ([''a'', ''b''] ! 0) = Inr ''<a>'' \<and>
   get_html site ([''a'', ''b''] ! 0) \<noteq> Inr ([''<b>'', ''<a>''] ! 0)"
  by (simp add: run_parallel_def joined_def worker_def get_html_def site_def)

text \<open>
  Claim C4, as the code has it. Let the request of one input raise an exception of a class
  derived from \<open>RequestException\<close> and the requests of the others return responses. Then
  the runner returns one entry for each input: that input's entry is the message
  \<open>get_html\<close> makes of the exception, a \<open>str\<close> like the pages, and every other entry is the
  text of the page of its input. In sequential mode the message stands at the index of the
  failed input. In concurrent mode the worker of that input ends at one position of the
  order of completion, and the entry at that position is the message; every execution,
  however far it has come, runs on to the end of the joins within two events for each link.
\<close>

theorem one_failure_is_isolated:
  assumes "i < length links"
    and "rg (links ! i) 5 = Inl e"
    and "issubclass_RequestException (class_of e)"
    and "\<forall>j<length links. j \<noteq> i \<longrightarrow> rg (links ! j) 5 = Inr (page j)"
  shows "(\<exists>rs. run_sequential rg links = Inr rs \<and> length rs = length links \<and>
            rs ! i = error_message (links ! i) e \<and>
            (\<forall>j<length links. j \<noteq> i \<longrightarrow> rs ! j = response_text (page j))) \<and>
         (\<forall>schedule rs. run_parallel rg links schedule = Some rs \<longrightarrow>
            length rs = length links \<and>
            (\<exists>!k. k < length links \<and> completion_order schedule ! k = i) \<and>
            (\<forall>k<length links.
               rs ! k = (if completion_order schedule ! k = i then error_message (links ! i) e
                         else response_text (page (completion_order schedule ! k))))) \<and>
         (\<forall>es s. exec rg es \<lparr>pending = links, threads = [], results = []\<rparr> = Some s \<longrightarrow>
            length es \<le> 2 * length links \<and>
            (\<exists>fs rs. run_parallel rg links (es @ fs) = Some rs))"
proof -
  let ?entry = "\<lambda>j. if j = i then error_message (links ! i) e else response_text (page j)"
  let ?pages = "map ?entry [0..<length links]"
  have m: "map (get_html rg) links = map Inr ?pages"
  proof (rule nth_equalityI)
    show "length (map (get_html rg) links) = length (map Inr ?pages)" by simp
  next
    fix j
    assume "j < length (map (get_html rg) links)"
    then have j: "j < length links" by simp
    with assms(2-4) have "get_html rg (links ! j) = Inr (?entry j)"
      by (simp add: get_html_def)
    with j show "map (get_html rg) links ! j = map Inr ?pages ! j" by simp
  qed
  have a: "\<exists>rs. run_sequential rg links = Inr rs \<and> length rs = length links \<and>
      rs ! i = error_message (links ! i) e \<and>
      (\<forall>j<length links. j \<noteq> i \<longrightarrow> rs ! j = response_text (page j))"
    using run_sequential_returned [OF m] assms(1) by simp
  have d: "length rs = length links \<and>
      (\<exists>!k. k < length links \<and> completion_order schedule ! k = i) \<and>
      (\<forall>k<length links.
         rs ! k = (if completion_order schedule ! k = i then error_message (links ! i) e
                   else response_text (page (completion_order schedule ! k))))"
    if r: "run_parallel rg links schedule = Some rs" for schedule rs
  proof -
    note o = run_parallel_order [OF r]
    from o(2) have len: "length (completion_order schedule) = length links"
      by (rule order_length)
    have "rs ! k = ?entry (completion_order schedule ! k)" if "k < length links" for k
      using that run_parallel_returned [OF m r] len order_nth [OF o(2) that] by simp
    with run_parallel_returned [OF m r] len order_position [OF o(2) assms(1)]
    show ?thesis by simp
  qed
  have b: "length es \<le> 2 * length links \<and> (\<exists>fs rs. run_parallel rg links (es @ fs) = Some rs)"
    if "exec rg es \<lparr>pending = links, threads = [], results = []\<rparr> = Some s" for es s
    using exec_bound [OF that] exec_completes [OF that] by simp
  from a d b show ?thesis by blast
qed

theorem one_failure_is_isolated_witness:
  "3 < length [''a'', ''b'', ''c'', ''d'', ''e''] \<and>
   site_without ''d'' ([''a'', ''b'', ''c'', ''d'', ''e''] ! 3) 5 = Inl refused \<and>
   issubclass_RequestException (class_of refused) \<and>
   (\<exists>rs. run_sequential (site_without ''d'') [''a'', ''b'', ''c'', ''d'', ''e''] = Inr rs \<and>
         length rs = length [''a'', ''b'', ''c'', ''d'', ''e''] \<and>
         rs ! 3 = error_message ([''a'', ''b'', ''c'', ''d'', ''e''] ! 3) refused) \<and>
   run_parallel (site_without ''d'') [''a'', ''b'', ''c'', ''d'', ''e'']
     [Start, Start, Start, Start, Finish 1, Finish 3, Start, Finish 4, Finish 0, Finish 2]
     = Some [''<b>'', error_message ''d'' refused, ''<e>'', ''<a>'', ''<c>''] \<and>
   length [''<b>'', error_message ''d'' refused, ''<e>'', ''<a>'', ''<c>'']
     = length [''a'', ''b'', ''c'', ''d'', ''e'']"
proof -
  let ?links = "[''a'', ''b'', ''c'', ''d'', ''e'']"
  let ?page = "\<lambda>j. \<lparr>status_code = 200, response_text = ''<'' @ ?links ! j @ ''>''\<rparr>"
  let ?rs = "[''<b>'', error_message ''d'' refused, ''<e>'', ''<a>'', ''<c>'']"
  have h1: "3 < length ?links" by simp
  have h2: "site_without ''d'' (?links ! 3) 5 = Inl refused"
    by (simp add: site_without_def)
  have h3: "issubclass_RequestException (class_of refused)"
    by (simp add: refused_def)
  have h4: "\<forall>j<length ?links. j \<noteq> 3 \<longrightarrow> site_without ''d'' (?links ! j) 5 = Inr (?page j)"
    by (auto simp: site_without_def site_def less_Suc_eq)
  have r: "run_parallel (site_without ''d'') ?links
             [Start, Start, Start, Start, Finish 1, Finish 3, Start, Finish 4, Finish 0, Finish 2]
           = Some ?rs"
    by (simp add: run_parallel_def joined_def worker_def get_html_def site_without_def
        site_def refused_def)
  note t = one_failure_is_isolated
    [where i = 3 and links = ?links and rg = "site_without ''d''" and e = refused
       and page = ?page, OF h1 h2 h3 h4]
  from t have a: "\<exists>rs. run_sequential (site_without ''d'') ?links = Inr rs \<and>
      length rs = length ?links \<and> rs ! 3 = error_message (?links ! 3) refused"
    by blast
  from t r have c: "length ?rs = length ?links"
    by blast
  from h1 h2 h3 a r c show ?thesis by blast
qed

text \<open>
  Claim C4 as the specification states it fails in concurrent mode: of five inputs only the
  one at index 3 fails; its worker ends first, so the message is at index 0 of the result
  and index 3 holds a page.
\<close>

theorem failure_slot_counterexample:
  "run_parallel (site_without ''d'') [''a'', ''b'', ''c'', ''d'', ''e'']
     [Start, Start, Start, Start, Start, Finish 3, Finish 0, Finish 1, Finish 2, Finish 4]
     = Some [error_message ''d'' refused, ''<a>'', ''<b>'', ''<c>'', ''<e>''] \<and>
   site_without ''d'' ([''a'', ''b'', ''c'', ''d'', ''e''] ! 3) 5 = Inl refused \<and>
   [error_message ''d'' refused, ''<a>'', ''<b>'', ''<c>'', ''<e>''] ! 3 = ''<c>'' \<and>
   ''<c>'' \<noteq> error_message ''d'' refused"
  by (simp add: run_parallel_def joined_def worker_def get_html_def site_without_def site_def
      refused_def error_message_def error_prefix_def)

text \<open>
  Claim C2 fails on the code where a request raises outside \<open>RequestException\<close>. For the two
  links \<open>http://a..b\<close> and \<open>http://b\<close> the request of the first raises
  \<open>LocationParseError\<close>, which the handler of \<open>get_html\<close> does not catch: in concurrent mode
  the thread of the first link ends without appending and the runner returns one entry for
  two inputs, and in sequential mode the exception leaves the runner, which returns no list.
\<close>

theorem run_parallel_loses_an_entry:
  "run_parallel site_unparsed [''http://a..b'', ''http://b''] [Start, Start, Finish 0, Finish 1]
     = Some [''<http://b>''] \<and>
   length [''<http://b>''] \<noteq> length [''http://a..b'', ''http://b''] \<and>
   run_sequential site_unparsed [''http://a..b'', ''http://b''] = Inl unparsed"
  by (simp add: run_parallel_def run_sequential_def joined_def worker_def get_html_def
      site_unparsed_def site_def unparsed_def)

text \<open>
  Claim C10 fails on the code for the same reason. For the links \<open>http://b\<close> and
  \<open>http://a..b\<close>, \<open>run_sequential\<close> is left by the \<open>LocationParseError\<close> of the second
  request and returns no list, while \<open>run_parallel\<close> returns the page of the first link
  alone: the worker of the second link appends nothing.
\<close>

theorem runners_differ_when_get_html_raises:
  "run_sequential site_unparsed [''http://b'', ''http://a..b''] = Inl unparsed \<and>
   run_parallel site_unparsed [''http://b'', ''http://a..b''] [Start, Finish 0, Start, Finish 1]
     = Some [''<http://b>''] \<and>
   worker site_unparsed ''http://a..b'' [''<http://b>''] = [''<http://b>'']"
  by (simp add: run_parallel_def run_sequential_def joined_def worker_def get_html_def
      site_unparsed_def site_def unparsed_def)

subsection \<open>The claims about get_html\<close>

text \<open>
  Claim C5, as the code has it. \<open>get_html\<close> returns a \<open>str\<close> in both cases: the text of the
  response when the request returns one, whatever its status code, and the message of line
  35 when the request raises an exception of a class derived from \<open>RequestException\<close>. The
  message keeps the text of the exception and not its class, and it is a value a page can
  have: the fetch of a page with that text returns the same \<open>str\<close>, so the value returned
  does not tell a failed fetch from the content of a page.
\<close>

theorem get_html_returns_plain_str:
  "(rg link 5 = Inr r \<longrightarrow> get_html rg link = Inr (response_text r)) \<and>
   (rg link 5 = Inl e \<and> issubclass_RequestException (class_of e) \<longrightarrow>
      get_html rg link = Inr (error_prefix @ link @ '': '' @ str_of e) \<and>
      get_html (\<lambda>u t. Inr \<lparr>status_code = 200, response_text = error_message link e\<rparr>) link
        = get_html rg link) \<and>
   (str_of e = str_of e' \<longrightarrow> error_message link e = error_message link e')"
  by (simp add: get_html_def error_message_def)

theorem get_html_returns_plain_str_witness:
  "site ''u'' 5 = Inr \<lparr>status_code = 200, response_text = ''<u>''\<rparr> \<and>
   get_html site ''u'' = Inr ''<u>'' \<and>
   down ''u'' 5 = Inl timed_out \<and>
   issubclass_RequestException (class_of timed_out) \<and>
   get_html down ''u'' = Inr (error_prefix @ ''u'' @ '': '' @ ''timed out'') \<and>
   str_of timed_out = str_of (Exception ConnectionError ''timed out'') \<and>
   error_message ''u'' timed_out = error_message ''u'' (Exception ConnectionError ''timed out'')"
proof -
  have h1: "site ''u'' 5 = Inr \<lparr>status_code = 200, response_text = ''<u>''\<rparr>"
    by (simp add: site_def)
  have h2: "down ''u'' 5 = Inl timed_out"
    by (simp add: down_def)
  have h2': "issubclass_RequestException (class_of timed_out)"
    by (simp add: timed_out_def)
  have h3: "str_of timed_out = str_of (Exception ConnectionError ''timed out'')"
    by (simp add: timed_out_def)
  from get_html_returns_plain_str [of site "''u''"] h1
  have a: "get_html site ''u'' = Inr ''<u>''"
    by simp
  from get_html_returns_plain_str [of down "''u''" _ timed_out] h2 h2'
  have "get_html down ''u'' = Inr (error_prefix @ ''u'' @ '': '' @ str_of timed_out)"
    by blast
  then have b: "get_html down ''u'' = Inr (error_prefix @ ''u'' @ '': '' @ ''timed out'')"
    by (simp add: timed_out_def)
  from get_html_returns_plain_str [where e = timed_out
      and e' = "Exception ConnectionError ''timed out''" and link = "''u''"] h3
  have c: "error_message ''u'' timed_out
           = error_message ''u'' (Exception ConnectionError ''timed out'')"
    by blast
  from h1 h2 h2' h3 a b c show ?thesis by blast
qed

text \<open>
  Claim C5 as the specification states it fails: the fetch that times out and the fetch of
  a page return the same value, so no test of the value tells them apart.
\<close>

theorem failed_fetch_looks_like_page_counterexample:
  "down ''u'' 5 = Inl timed_out \<and>
   parrot ''u'' 5 = Inr \<lparr>status_code = 200, response_text = error_message ''u'' timed_out\<rparr> \<and>
   get_html down ''u'' = Inr (error_message ''u'' timed_out) \<and>
   get_html down ''u'' = get_html parrot ''u''"
  by (simp add: down_def parrot_def get_html_def timed_out_def)

text \<open>
  Claim C6 fails on the code for the URL \<open>http://a..b\<close>: the request raises
  \<open>LocationParseError\<close>, whose class does not derive from \<open>RequestException\<close>, so the handler
  does not catch it and the exception leaves \<open>get_html\<close>, which returns no \<open>str\<close>. In a
  thread, the worker of that link ends without appending anything.
\<close>

theorem get_html_lets_other_exceptions_out:
  "site_unparsed ''http://a..b'' 5 = Inl unparsed \<and>
   \<not> issubclass_RequestException (class_of unparsed) \<and>
   get_html site_unparsed ''http://a..b'' = Inl unparsed \<and>
   worker site_unparsed ''http://a..b'' [] = []"
  by (simp add: worker_def get_html_def site_unparsed_def unparsed_def)

section \<open>Properties of level4.py\<close>

text \<open>The three messages of the early returns differ from one another, whatever they name.\<close>

lemma messages_differ:
  "file_missing_message a \<noteq> file_empty_message b"
  "file_missing_message a \<noteq> columns_missing_message b c"
  "file_empty_message a \<noteq> columns_missing_message b c"
  by (simp_all add: file_missing_message_def file_empty_message_def columns_missing_message_def
      cross_mark_def)

text \<open>
  Claim C8. \<open>calculate_new_column\<close> returns its error cases as values and raises nothing:
  for every file name, when the file does not exist, when it has zero bytes, and when its
  sheet lacks the column \<open>Price\<close> or the column \<open>Quantity\<close>, the function returns a \<open>str\<close>
  that names the failure and the file, and leaves the file system as it was. The three
  messages differ from one another, and \<open>main\<close> counts none of them as a success.
\<close>

theorem calculate_new_column_error_values:
  fixes lib :: "('fs, 'df, 'num) libraries"
  shows
  "(\<not> os_path_exists lib fs name \<longrightarrow>
      calculate_new_column lib name fs = (Str (file_missing_message name), fs)) \<and>
   (os_path_exists lib fs name \<and> os_path_getsize lib fs name = Inr 0 \<longrightarrow>
      calculate_new_column lib name fs = (Str (file_empty_message name), fs)) \<and>
   (os_path_exists lib fs name \<and> os_path_getsize lib fs name = Inr (Suc n) \<and>
    pd_read_excel lib fs name = Inr df \<and>
    (\<not> has_column lib df ''Price'' \<or> \<not> has_column lib df ''Quantity'') \<longrightarrow>
      calculate_new_column lib name fs =
        (Str (columns_missing_message (os_path_basename lib name) (repr_columns lib df)), fs)) \<and>
   file_missing_message name \<noteq> file_empty_message name \<and>
   file_missing_message name \<noteq> columns_missing_message base available \<and>
   file_empty_message name \<noteq> columns_missing_message base available \<and>
   \<not> counted_successful (Str message :: 'num returned)"
  by (auto simp: calculate_new_column_def messages_differ)

theorem calculate_new_column_error_values_witness:
  "\<not> os_path_exists toy disk ''gone.xlsx'' \<and>
   calculate_new_column toy ''gone.xlsx'' disk = (Str (file_missing_message ''gone.xlsx''), disk) \<and>
   os_path_exists toy disk ''empty.xlsx'' \<and> os_path_getsize toy disk ''empty.xlsx'' = Inr 0 \<and>
   calculate_new_column toy ''empty.xlsx'' disk = (Str (file_empty_message ''empty.xlsx''), disk) \<and>
   os_path_exists toy disk ''prices.xlsx'' \<and> os_path_getsize toy disk ''prices.xlsx'' = Inr 10 \<and>
   pd_read_excel toy disk ''prices.xlsx'' = Inr [''Product'', ''Price''] \<and>
   has_column toy [''Product'', ''Price''] ''Price'' \<and>
   \<not> has_column toy [''Product'', ''Price''] ''Quantity'' \<and>
   calculate_new_column toy ''prices.xlsx'' disk
     = (Str (columns_missing_message ''prices.xlsx'' ''ProductPrice''), disk)"
proof -
  have g: "\<not> os_path_exists toy disk ''gone.xlsx''"
    by (simp add: toy_def disk_def)
  have e: "os_path_exists toy disk ''empty.xlsx'' \<and> os_path_getsize toy disk ''empty.xlsx'' = Inr 0"
    by (simp add: toy_def disk_def)
  have p1: "os_path_exists toy disk ''prices.xlsx''"
    and p2: "os_path_getsize toy disk ''prices.xlsx'' = Inr (Suc 9)"
    and p3: "pd_read_excel toy disk ''prices.xlsx'' = Inr [''Product'', ''Price'']"
    and p4: "has_column toy [''Product'', ''Price''] ''Price''"
    and p5: "\<not> has_column toy [''Product'', ''Price''] ''Quantity''"
    by (simp_all add: toy_def disk_def)
  from calculate_new_column_error_values [where lib = toy and fs = disk and name = "''gone.xlsx''"] g
  have a: "calculate_new_column toy ''gone.xlsx'' disk
           = (Str (file_missing_message ''gone.xlsx''), disk)"
    by blast
  from calculate_new_column_error_values [where lib = toy and fs = disk and name = "''empty.xlsx''"] e
  have b: "calculate_new_column toy ''empty.xlsx'' disk
           = (Str (file_empty_message ''empty.xlsx''), disk)"
    by blast
  from calculate_new_column_error_values [where lib = toy and fs = disk
      and name = "''prices.xlsx''" and n = 9 and df = "[''Product'', ''Price'']"] p1 p2 p3 p5
  have "calculate_new_column toy ''prices.xlsx'' disk
        = (Str (columns_missing_message (os_path_basename toy ''prices.xlsx'')
             (repr_columns toy [''Product'', ''Price''])), disk)"
    by blast
  then have c: "calculate_new_column toy ''prices.xlsx'' disk
                = (Str (columns_missing_message ''prices.xlsx'' ''ProductPrice''), disk)"
    by (simp add: toy_def)
  from p2 have p2': "os_path_getsize toy disk ''prices.xlsx'' = Inr 10" by simp
  from g e p1 p2' p3 p4 p5 a b c show ?thesis by blast
qed

end
